theory Spec2Isabelle
  imports Main
begin

section \<open>Configuration of the LLM council (backend/config.py)\<close>

text \<open>
  The module reads four environment variables once, at import time, and binds six
  module-level names. The model takes the environment as it is after
  \<^verbatim>\<open>load_dotenv()\<close> has run, as a map from variable names to values
  (\<^verbatim>\<open>os.getenv(k)\<close> is \<open>env k\<close>), and returns the bound names as a record, or
  the exception that aborted the import.

  A Python \<^verbatim>\<open>str\<close> is modelled as a \<open>string\<close>: the list of its code points, each
  a \<open>char\<close>. The model therefore covers the strings whose code points are below 256.
\<close>

subsection \<open>Python values\<close>

datatype py_error = ValueError | IndexError

type_synonym environ = "string \<rightharpoonup> string"

text \<open>
  \<^verbatim>\<open>str.isspace\<close> on one character, for code points below 256: TAB, LF, VT, FF, CR,
  the separators FS, GS, RS, US, the space, NEL (0x85) and the no-break space (0xA0).
\<close>

definition isspace :: "char \<Rightarrow> bool" where
  "isspace c =
     (let n = (of_char c :: nat)
      in (9 \<le> n \<and> n \<le> 13) \<or> (28 \<le> n \<and> n \<le> 32) \<or> n = 133 \<or> n = 160)"

text \<open>\<^verbatim>\<open>str.strip()\<close>: leading and trailing whitespace removed.\<close>

definition lstrip :: "string \<Rightarrow> string" where
  "lstrip s = dropWhile isspace s"

definition rstrip :: "string \<Rightarrow> string" where
  "rstrip s = rev (dropWhile isspace (rev s))"

definition strip :: "string \<Rightarrow> string" where
  "strip s = rstrip (lstrip s)"

text \<open>
  \<^verbatim>\<open>str.lower()\<close>, for code points below 256: the letters A to Z and the Latin-1
  capitals 0xC0 to 0xDE (0xD7, the multiplication sign, apart) move up by 32.
\<close>

definition lower_char :: "char \<Rightarrow> char" where
  "lower_char c =
     (let n = (of_char c :: nat)
      in if (65 \<le> n \<and> n \<le> 90) \<or> (192 \<le> n \<and> n \<le> 214) \<or> (216 \<le> n \<and> n \<le> 222)
         then char_of (n + 32) else c)"

definition lower :: "string \<Rightarrow> string" where
  "lower s = map lower_char s"

text \<open>
  \<^verbatim>\<open>s.split(sep)\<close>: the pieces of \<open>s\<close> between the occurrences of \<open>sep\<close>, found
  from the left and not overlapping. An empty separator raises ValueError.
  \<open>split_from sep acc s\<close> scans \<open>s\<close> with the current piece, reversed, in \<open>acc\<close>.
\<close>

fun split_from :: "string \<Rightarrow> string \<Rightarrow> string \<Rightarrow> string list" where
  "split_from sep acc [] = [rev acc]"
| "split_from sep acc (c # cs) =
     (if sep \<noteq> [] \<and> take (length sep) (c # cs) = sep
      then rev acc # split_from sep [] (drop (length sep - 1) cs)
      else split_from sep (c # acc) cs)"

definition split :: "string \<Rightarrow> string \<Rightarrow> py_error + string list" where
  "split s sep = (if sep = [] then Inl ValueError else Inr (split_from sep [] s))"

text \<open>\<^verbatim>\<open>sep.join(xs)\<close>.\<close>

fun join :: "string \<Rightarrow> string list \<Rightarrow> string" where
  "join sep [] = []"
| "join sep [x] = x"
| "join sep (x # y # ys) = x @ sep @ join sep (y # ys)"

text \<open>\<^verbatim>\<open>xs[0]\<close> on a list: IndexError when the list is empty.\<close>

definition index0 :: "'a list \<Rightarrow> py_error + 'a" where
  "index0 xs = (case xs of [] \<Rightarrow> Inl IndexError | x # _ \<Rightarrow> Inr x)"

subsection \<open>The module\<close>

text \<open>
  \<^verbatim>\<open>
  def _parse_model_list(value: str | None) -> list[str]:
    if not value:
      return []
    return [model.strip() for model in value.split(",") if model.strip()]
  \<close>
  \<^verbatim>\<open>not value\<close> holds for \<^verbatim>\<open>None\<close> and for the empty string.
\<close>

definition parse_model_list :: "string option \<Rightarrow> py_error + string list" where
  "parse_model_list value =
     (case value of
        None \<Rightarrow> Inr []
      | Some v \<Rightarrow>
          if v = [] then Inr []
          else (case split v '','' of
                  Inl e \<Rightarrow> Inl e
                | Inr models \<Rightarrow> Inr [strip model. model \<leftarrow> models, strip model \<noteq> []]))"

record config =
  OPENROUTER_API_KEY :: "string option"
  COUNCIL_MODELS :: "string list"
  CHAIRMAN_MODEL :: string
  REASONING_EFFORT :: "string option"
  OPENROUTER_API_URL :: string
  DATA_DIR :: string

definition DEFAULT_COUNCIL_MODELS :: "string list" where
  "DEFAULT_COUNCIL_MODELS =
     [''anthropic/claude-haiku-4.5'',
      ''google/gemini-3-flash-preview'',
      ''openai/gpt-5-mini'',
      ''x-ai/grok-4.1-fast'']"

text \<open>
  \<^verbatim>\<open>COUNCIL_MODELS = _parse_model_list(os.getenv("COUNCIL_MODELS")) or [...]\<close>:
  the parsed list when it is not empty, the built-in list otherwise.
\<close>

definition council_models :: "environ \<Rightarrow> py_error + string list" where
  "council_models env =
     (case parse_model_list (env ''COUNCIL_MODELS'') of
        Inl e \<Rightarrow> Inl e
      | Inr parsed \<Rightarrow> Inr (if parsed \<noteq> [] then parsed else DEFAULT_COUNCIL_MODELS))"

text \<open>
  \<^verbatim>\<open>CHAIRMAN_MODEL = os.getenv("CHAIRMAN_MODEL") or COUNCIL_MODELS[0]\<close>:
  the right operand is evaluated only when the left one is \<^verbatim>\<open>None\<close> or empty.
\<close>

definition chairman_model :: "environ \<Rightarrow> string list \<Rightarrow> py_error + string" where
  "chairman_model env council =
     (case env ''CHAIRMAN_MODEL'' of
        None \<Rightarrow> index0 council
      | Some v \<Rightarrow> if v \<noteq> [] then Inr v else index0 council)"

text \<open>
  \<^verbatim>\<open>REASONING_EFFORT = (os.getenv("REASONING_EFFORT") or "medium").strip().lower() or None\<close>
\<close>

definition reasoning_effort :: "environ \<Rightarrow> string option" where
  "reasoning_effort env =
     (let raw = (case env ''REASONING_EFFORT'' of
                   None \<Rightarrow> ''medium''
                 | Some v \<Rightarrow> if v \<noteq> [] then v else ''medium'');
          effort = lower (strip raw)
      in if effort \<noteq> [] then Some effort else None)"

text \<open>The module body, statement by statement; an exception ends it.\<close>

definition load_config :: "environ \<Rightarrow> py_error + config" where
  "load_config env =
     (case council_models env of
        Inl e \<Rightarrow> Inl e
      | Inr council \<Rightarrow>
          (case chairman_model env council of
             Inl e \<Rightarrow> Inl e
           | Inr chairman \<Rightarrow>
               Inr \<lparr> OPENROUTER_API_KEY = env ''OPENROUTER_API_KEY'',
                     COUNCIL_MODELS = council,
                     CHAIRMAN_MODEL = chairman,
                     REASONING_EFFORT = reasoning_effort env,
                     OPENROUTER_API_URL = ''https://openrouter.ai/api/v1/chat/completions'',
                     DATA_DIR = ''data/conversations'' \<rparr>))"

subsection \<open>The parser as the specification states it\<close>

text \<open>
  The comma-delimited segments of a string: the first segment runs up to the first
  comma, and the segments of what follows it come after. A string with no comma is its
  own single segment.
\<close>

function comma_segments :: "string \<Rightarrow> string list" where
  "comma_segments s =
     (case dropWhile (\<lambda>c. c \<noteq> CHR '','') s of
        [] \<Rightarrow> [takeWhile (\<lambda>c. c \<noteq> CHR '','') s]
      | _ # rest \<Rightarrow> takeWhile (\<lambda>c. c \<noteq> CHR '','') s # comma_segments rest)"
  by pat_completeness auto
termination
proof (relation "measure length")
  fix s :: string and x rest
  assume "dropWhile (\<lambda>c. c \<noteq> CHR '','') s = x # rest"
  then have "length (x # rest) \<le> length s"
    using length_dropWhile_le [of "\<lambda>c. c \<noteq> CHR '',''" s] by simp
  then show "(rest, s) \<in> measure length" by simp
qed simp

text \<open>
  The specification of the parser: every segment trimmed, the segments that are empty
  after trimming dropped, nothing for an absent input.
\<close>

definition spec_parse_model_list :: "string option \<Rightarrow> string list" where
  "spec_parse_model_list value =
     (case value of
        None \<Rightarrow> []
      | Some s \<Rightarrow> filter (\<lambda>seg. seg \<noteq> []) (map strip (comma_segments s)))"

declare comma_segments.simps [simp del]

section \<open>Properties\<close>

subsection \<open>Splitting on commas\<close>

lemma split_comma: "split s '','' = Inr (split_from '','' [] s)"
  by (simp add: split_def)

lemma split_from_comma_acc:
  "split_from '','' acc s =
     (rev acc @ takeWhile (\<lambda>c. c \<noteq> CHR '','') s) #
     (case dropWhile (\<lambda>c. c \<noteq> CHR '','') s of [] \<Rightarrow> [] | _ # rest \<Rightarrow> split_from '','' [] rest)"
  by (induction s arbitrary: acc) auto

lemma split_from_comma_segments: "split_from '','' [] s = comma_segments s"
proof (induction s rule: comma_segments.induct)
  case (1 s)
  show ?case
  proof (cases "dropWhile (\<lambda>c. c \<noteq> CHR '','') s")
    case Nil
    show ?thesis
      by (simp add: Nil split_from_comma_acc [of "[]" s] comma_segments.simps [of s])
  next
    case (Cons x rest)
    with "1" have "split_from '','' [] rest = comma_segments rest" by simp
    then show ?thesis
      by (simp add: Cons split_from_comma_acc [of "[]" s] comma_segments.simps [of s])
  qed
qed

lemma comprehension_filter_map:
  "[f x. x \<leftarrow> xs, f x \<noteq> []] = filter (\<lambda>y. y \<noteq> []) (map f xs)"
  by (induction xs) auto

lemma parse_model_list_Some:
  "parse_model_list (Some v) = Inr (filter (\<lambda>seg. seg \<noteq> []) (map strip (comma_segments v)))"
proof (cases "v = []")
  case True
  have "strip [] = []" by (simp add: strip_def lstrip_def rstrip_def)
  with True show ?thesis
    by (simp add: parse_model_list_def comma_segments.simps [of "[]"])
next
  case False
  then show ?thesis
    by (simp add: parse_model_list_def split_comma split_from_comma_segments
        comprehension_filter_map del: concat_map_singleton)
qed

subsection \<open>Trimming\<close>

lemma strip_Nil: "strip [] = []"
  by (simp add: strip_def lstrip_def rstrip_def)

lemma lstrip_idem: "lstrip (lstrip s) = lstrip s"
  by (simp add: lstrip_def)

lemma rstrip_idem: "rstrip (rstrip s) = rstrip s"
  by (simp add: rstrip_def)

lemma rstrip_decomp: "s = rstrip s @ rev (takeWhile isspace (rev s))"
proof -
  have "rev (dropWhile isspace (rev s)) @ rev (takeWhile isspace (rev s)) =
        rev (takeWhile isspace (rev s) @ dropWhile isspace (rev s))"
    by (simp only: rev_append)
  also have "\<dots> = rev (rev s)"
    by (simp only: takeWhile_dropWhile_id)
  finally show ?thesis by (simp add: rstrip_def)
qed

lemma hd_rstrip: "rstrip s \<noteq> [] \<Longrightarrow> hd (rstrip s) = hd s"
  using rstrip_decomp [of s] by (metis hd_append2)

lemma lstrip_rstrip: "lstrip s = s \<Longrightarrow> lstrip (rstrip s) = rstrip s"
proof (cases "rstrip s = []")
  case True
  then show ?thesis by (simp add: lstrip_def)
next
  case False
  assume fixed: "lstrip s = s"
  from False have "s \<noteq> []" by (auto simp: rstrip_def)
  with fixed have "\<not> isspace (hd s)"
    unfolding lstrip_def by (metis hd_dropWhile)
  with False have "\<not> isspace (hd (rstrip s))" by (simp add: hd_rstrip)
  with False show ?thesis
    unfolding lstrip_def by (cases "rstrip s") simp_all
qed

lemma strip_idem: "strip (strip s) = strip s"
  by (simp add: strip_def lstrip_rstrip lstrip_idem rstrip_idem)

lemma set_strip: "set (strip s) \<subseteq> set s"
proof -
  have "set (rstrip t) \<subseteq> set t" for t
    using set_dropWhileD [of _ isspace "rev t"] by (auto simp: rstrip_def)
  moreover have "set (lstrip s) \<subseteq> set s"
    using set_dropWhileD [of _ isspace s] by (auto simp: lstrip_def)
  ultimately show ?thesis unfolding strip_def by blast
qed

lemma strip_all_space:
  assumes "\<forall>c\<in>set s. isspace c"
  shows "strip s = []"
proof -
  from assms have "lstrip s = []" by (simp add: lstrip_def)
  then show ?thesis by (simp add: strip_def rstrip_def)
qed

lemma strip_eq_Nil: "strip s = [] \<longleftrightarrow> (\<forall>c\<in>set s. isspace c)"
proof
  assume "strip s = []"
  then have "dropWhile isspace (rev (lstrip s)) = []" by (simp add: strip_def rstrip_def)
  then have "\<forall>c\<in>set (lstrip s). isspace c" by (simp add: dropWhile_eq_Nil_conv)
  moreover have "lstrip s \<noteq> [] \<Longrightarrow> \<not> isspace (hd (lstrip s))"
    unfolding lstrip_def by (rule hd_dropWhile)
  ultimately have "lstrip s = []" by (cases "lstrip s") auto
  then show "\<forall>c\<in>set s. isspace c" by (simp add: lstrip_def dropWhile_eq_Nil_conv)
qed (rule strip_all_space)

lemma comma_segments_no_comma:
  assumes "CHR '','' \<notin> set s"
  shows "comma_segments s = [s]"
proof -
  from assms have d: "dropWhile (\<lambda>c. c \<noteq> CHR '','') s = []" by auto
  from assms have t: "takeWhile (\<lambda>c. c \<noteq> CHR '','') s = s" by auto
  show ?thesis by (simp add: comma_segments.simps [of s] d t)
qed

lemma comma_segments_append:
  assumes "CHR '','' \<notin> set x"
  shows "comma_segments (x @ CHR '','' # rest) = x # comma_segments rest"
proof -
  from assms
  have d: "dropWhile (\<lambda>c. c \<noteq> CHR '','') (x @ CHR '','' # rest) = CHR '','' # rest"
    by (simp add: dropWhile_append)
  from assms
  have t: "takeWhile (\<lambda>c. c \<noteq> CHR '','') (x @ CHR '','' # rest) = x"
    by (simp add: takeWhile_append)
  show ?thesis
    by (simp only: comma_segments.simps [of "x @ CHR '','' # rest"] d t list.case)
qed

lemma comma_segments_join:
  "xs \<noteq> [] \<Longrightarrow> \<forall>x\<in>set xs. CHR '','' \<notin> set x \<Longrightarrow>
   comma_segments (join '','' xs) = xs"
proof (induction "'',''" xs rule: join.induct)
  case 1
  then show ?case by simp
next
  case (2 x)
  then show ?case by (simp add: comma_segments_no_comma)
next
  case (3 x y ys)
  then show ?case by (simp add: comma_segments_append)
qed

lemma join_comma_segments: "join '','' (comma_segments s) = s"
proof (induction s rule: comma_segments.induct)
  case (1 s)
  show ?case
  proof (cases "dropWhile (\<lambda>c. c \<noteq> CHR '','') s")
    case Nil
    then have "takeWhile (\<lambda>c. c \<noteq> CHR '','') s = s"
      by (simp add: dropWhile_eq_Nil_conv takeWhile_eq_all_conv)
    then show ?thesis by (simp add: Nil comma_segments.simps [of s])
  next
    case (Cons x rest)
    then have x: "x = CHR '',''"
      using hd_dropWhile [of "\<lambda>c. c \<noteq> CHR '',''" s] by simp
    from "1" Cons have IH: "join '','' (comma_segments rest) = rest" by simp
    obtain y ys where ys: "comma_segments rest = y # ys"
      by (cases "comma_segments rest") (simp_all add: comma_segments.simps [of rest] split: list.splits)
    have "s = takeWhile (\<lambda>c. c \<noteq> CHR '','') s @ dropWhile (\<lambda>c. c \<noteq> CHR '','') s" by simp
    then have "s = takeWhile (\<lambda>c. c \<noteq> CHR '','') s @ CHR '','' # rest"
      using Cons x by simp
    moreover have "join '','' (comma_segments s) = takeWhile (\<lambda>c. c \<noteq> CHR '','') s @ '','' @ rest"
      using IH ys by (simp add: Cons comma_segments.simps [of s])
    ultimately show ?thesis by simp
  qed
qed

lemma comma_segments_comma_free:
  "x \<in> set (comma_segments s) \<Longrightarrow> CHR '','' \<notin> set x \<and> set x \<subseteq> set s"
proof (induction s rule: comma_segments.induct)
  case (1 s)
  have tw: "CHR '','' \<notin> set (takeWhile (\<lambda>c. c \<noteq> CHR '','') s)"
    using set_takeWhileD [of "CHR '',''" "\<lambda>c. c \<noteq> CHR '',''" s] by blast
  have tws: "set (takeWhile (\<lambda>c. c \<noteq> CHR '','') s) \<subseteq> set s"
    using set_takeWhileD [of _ "\<lambda>c. c \<noteq> CHR '',''" s] by blast
  show ?case
  proof (cases "dropWhile (\<lambda>c. c \<noteq> CHR '','') s")
    case Nil
    with "1.prems" have "x = takeWhile (\<lambda>c. c \<noteq> CHR '','') s"
      by (simp add: comma_segments.simps [of s])
    with tw tws show ?thesis by simp
  next
    case (Cons y rest)
    have "set rest \<subseteq> set s"
      using set_dropWhileD [of _ "\<lambda>c. c \<noteq> CHR '',''" s] Cons by auto
    moreover from "1.prems" Cons
    have "x = takeWhile (\<lambda>c. c \<noteq> CHR '','') s \<or> x \<in> set (comma_segments rest)"
      by (simp add: comma_segments.simps [of s])
    ultimately show ?thesis using tw tws "1.IH" [OF Cons] by blast
  qed
qed

subsection \<open>The parser\<close>

lemma parse_model_list_eq_spec: "parse_model_list v = Inr (spec_parse_model_list v)"
proof (cases v)
  case None
  then show ?thesis by (simp add: parse_model_list_def spec_parse_model_list_def)
next
  case (Some s)
  then show ?thesis by (simp add: parse_model_list_Some spec_parse_model_list_def)
qed

lemma parsed_entries:
  assumes "x \<in> set (spec_parse_model_list v)"
  shows "x \<noteq> [] \<and> strip x = x \<and> CHR '','' \<notin> set x"
proof (cases v)
  case None
  with assms show ?thesis by (simp add: spec_parse_model_list_def)
next
  case (Some s)
  with assms obtain seg where seg: "seg \<in> set (comma_segments s)" and x: "x = strip seg" "x \<noteq> []"
    by (auto simp: spec_parse_model_list_def)
  from seg have "CHR '','' \<notin> set seg" by (simp add: comma_segments_comma_free)
  with x set_strip [of seg] have "CHR '','' \<notin> set x" by blast
  with x show ?thesis by (simp add: strip_idem)
qed

lemma filter_map_strip_fixed:
  "\<forall>x\<in>set xs. x \<noteq> [] \<and> strip x = x \<Longrightarrow> filter (\<lambda>seg. seg \<noteq> []) (map strip xs) = xs"
  by (induction xs) auto

lemma parse_join:
  assumes "\<forall>x\<in>set xs. x \<noteq> [] \<and> strip x = x \<and> CHR '','' \<notin> set x"
  shows "parse_model_list (Some (join '','' xs)) = Inr xs"
proof (cases "xs = []")
  case True
  then show ?thesis by (simp add: parse_model_list_def)
next
  case False
  with assms have segs: "comma_segments (join '','' xs) = xs"
    by (simp add: comma_segments_join)
  from assms have kept: "filter (\<lambda>seg. seg \<noteq> []) (map strip xs) = xs"
    by (intro filter_map_strip_fixed) simp
  show ?thesis by (simp only: parse_model_list_Some segs kept)
qed

lemma count_comma_takeWhile: "count_list (takeWhile (\<lambda>c. c \<noteq> CHR '','') s) CHR '','' = 0"
  by (induction s) auto

lemma length_comma_segments: "length (comma_segments s) = Suc (count_list s CHR '','')"
proof (induction s rule: comma_segments.induct)
  case (1 s)
  have split: "count_list s CHR '','' = count_list (dropWhile (\<lambda>c. c \<noteq> CHR '','') s) CHR '',''"
    by (induction s) auto
  show ?case
  proof (cases "dropWhile (\<lambda>c. c \<noteq> CHR '','') s")
    case Nil
    with split have "count_list s CHR '','' = 0" by simp
    then show ?thesis by (simp add: Nil comma_segments.simps [of s])
  next
    case (Cons x rest)
    then have "x = CHR '',''"
      using hd_dropWhile [of "\<lambda>c. c \<noteq> CHR '',''" s] by simp
    with Cons split have "count_list s CHR '','' = Suc (count_list rest CHR '','')" by simp
    moreover from "1" Cons have "length (comma_segments rest) = Suc (count_list rest CHR '','')" by simp
    ultimately show ?thesis by (simp add: Cons comma_segments.simps [of s])
  qed
qed

text \<open>
  C3: for every optional input string the parser returns the comma-delimited segments
  of the input, in order, each trimmed of surrounding whitespace, with the segments
  that are empty after trimming dropped. \<^verbatim>\<open>None\<close> and the empty string give the
  empty list; order is kept and duplicates stay: "a,,b" and "a, ,b" both give
  ["a", "b"], and " b ,a,b" gives ["b", "a", "b"].
\<close>

theorem parse_model_list_refines_spec:
  "parse_model_list value = Inr (spec_parse_model_list value)
   \<and> parse_model_list None = Inr []
   \<and> parse_model_list (Some '''') = Inr []
   \<and> parse_model_list (Some ''a,,b'') = Inr [''a'', ''b'']
   \<and> parse_model_list (Some ''a, ,b'') = Inr [''a'', ''b'']
   \<and> parse_model_list (Some '' b ,a,b'') = Inr [''b'', ''a'', ''b'']"
proof -
  have "parse_model_list (Some ''a,,b'') = Inr [''a'', ''b'']" by code_simp
  moreover have "parse_model_list (Some ''a, ,b'') = Inr [''a'', ''b'']" by code_simp
  moreover have "parse_model_list (Some '' b ,a,b'') = Inr [''b'', ''a'', ''b'']" by code_simp
  moreover have "parse_model_list None = Inr []" by (simp add: parse_model_list_def)
  moreover have "parse_model_list (Some '''') = Inr []" by (simp add: parse_model_list_def)
  moreover note parse_model_list_eq_spec [of "value"]
  ultimately show ?thesis by blast
qed

text \<open>
  C8: joining the parsed entries with "," and parsing again gives the same list, for
  every input. The parsed entries never contain a comma or surrounding whitespace, so
  the condition under which the round trip holds is always met.
\<close>

theorem parse_join_roundtrip:
  "\<exists>models. parse_model_list value = Inr models
      \<and> parse_model_list (Some (join '','' models)) = Inr models"
proof -
  have "parse_model_list (Some (join '','' (spec_parse_model_list value))) =
        Inr (spec_parse_model_list value)"
    by (rule parse_join) (simp add: parsed_entries)
  then show ?thesis by (simp add: parse_model_list_eq_spec)
qed

text \<open>
  C9: the parser returns a list for every input, \<^verbatim>\<open>None\<close> included: the only
  operation in it that can raise is \<^verbatim>\<open>split\<close>, and its separator is not empty.
  The result depends on the input alone. Input with stray separators gives fewer
  entries, never more than one per comma-delimited segment, and none for \<^verbatim>\<open>None\<close>.
\<close>

theorem parse_model_list_total:
  "\<exists>models. parse_model_list value = Inr models
      \<and> length models \<le> (case value of None \<Rightarrow> 0 | Some s \<Rightarrow> Suc (count_list s CHR '',''))"
proof (cases "value")
  case None
  then show ?thesis by (simp add: parse_model_list_def)
next
  case (Some s)
  have "length (filter (\<lambda>seg. seg \<noteq> []) (map strip (comma_segments s))) \<le> length (map strip (comma_segments s))"
    by (rule length_filter_le)
  with Some show ?thesis by (simp add: parse_model_list_Some length_comma_segments)
qed

lemma parse_only_commas_and_spaces:
  assumes "\<forall>c\<in>set s. c = CHR '','' \<or> isspace c"
  shows "parse_model_list (Some s) = Inr []"
proof -
  have "strip seg = []" if "seg \<in> set (comma_segments s)" for seg
  proof -
    from comma_segments_comma_free [OF that]
    have no_comma: "CHR '','' \<notin> set seg" and sub: "set seg \<subseteq> set s" by simp_all
    have "\<forall>c\<in>set seg. isspace c"
    proof
      fix c
      assume c: "c \<in> set seg"
      with sub have "c \<in> set s" by (rule subsetD)
      with assms have "c = CHR '','' \<or> isspace c" by (rule bspec)
      moreover from c no_comma have "c \<noteq> CHR '',''" by auto
      ultimately show "isspace c" by simp
    qed
    then show ?thesis by (rule strip_all_space)
  qed
  then have "filter (\<lambda>seg. seg \<noteq> []) (map strip (comma_segments s)) = []"
    by (simp add: filter_empty_conv)
  then show ?thesis by (simp add: parse_model_list_Some)
qed

subsection \<open>Resolution of the configuration\<close>

lemma lower_eq_Nil: "lower s = [] \<longleftrightarrow> s = []"
  by (simp add: lower_def)

lemma default_council_entries:
  "x \<in> set DEFAULT_COUNCIL_MODELS \<Longrightarrow> x \<noteq> [] \<and> strip x = x"
proof -
  have "\<forall>x\<in>set DEFAULT_COUNCIL_MODELS. x \<noteq> [] \<and> strip x = x" by code_simp
  then show "x \<in> set DEFAULT_COUNCIL_MODELS \<Longrightarrow> x \<noteq> [] \<and> strip x = x" by blast
qed

lemma council_models_eq:
  "council_models env =
     Inr (if spec_parse_model_list (env ''COUNCIL_MODELS'') \<noteq> []
          then spec_parse_model_list (env ''COUNCIL_MODELS'')
          else DEFAULT_COUNCIL_MODELS)"
  by (simp add: council_models_def parse_model_list_eq_spec)

lemma council_models_nonempty: "council_models env = Inr council \<Longrightarrow> council \<noteq> []"
  by (auto simp: council_models_eq DEFAULT_COUNCIL_MODELS_def split: if_splits)

lemma council_models_entries:
  assumes "council_models env = Inr council" and "x \<in> set council"
  shows "x \<noteq> [] \<and> strip x = x"
  using assms parsed_entries [of x "env ''COUNCIL_MODELS''"] default_council_entries [of x]
  by (auto simp: council_models_eq split: if_splits)

lemma load_config_eq:
  assumes "council_models env = Inr council"
  shows "load_config env =
     Inr \<lparr> OPENROUTER_API_KEY = env ''OPENROUTER_API_KEY'',
           COUNCIL_MODELS = council,
           CHAIRMAN_MODEL = (case env ''CHAIRMAN_MODEL'' of
                               None \<Rightarrow> hd council
                             | Some v \<Rightarrow> if v \<noteq> [] then v else hd council),
           REASONING_EFFORT = reasoning_effort env,
           OPENROUTER_API_URL = ''https://openrouter.ai/api/v1/chat/completions'',
           DATA_DIR = ''data/conversations'' \<rparr>"
proof -
  from assms have "council \<noteq> []" by (rule council_models_nonempty)
  then have "index0 council = Inr (hd council)"
    by (cases council) (simp_all add: index0_def)
  with assms show ?thesis
    by (simp add: load_config_def chairman_model_def split: option.splits)
qed

lemma council_models_total: "\<exists>council. council_models env = Inr council"
  by (simp add: council_models_eq)

lemma index0_hd: "xs \<noteq> [] \<Longrightarrow> index0 xs = Inr (hd xs)"
  by (cases xs) (simp_all add: index0_def)

lemma reasoning_effort_unset:
  assumes "env ''REASONING_EFFORT'' = None \<or> env ''REASONING_EFFORT'' = Some []"
  shows "reasoning_effort env = Some ''medium''"
proof -
  have "lower (strip ''medium'') = ''medium''" by code_simp
  with assms show ?thesis by (auto simp: reasoning_effort_def)
qed

lemma reasoning_effort_set:
  "env ''REASONING_EFFORT'' = Some v \<Longrightarrow> v \<noteq> [] \<Longrightarrow>
   reasoning_effort env = (if lower (strip v) = [] then None else Some (lower (strip v)))"
  by (simp add: reasoning_effort_def)

lemma load_config_reasoning_effort:
  "\<exists>cfg. load_config env = Inr cfg \<and> REASONING_EFFORT cfg = reasoning_effort env"
proof -
  obtain council where "council_models env = Inr council"
    using council_models_total by blast
  then show ?thesis by (simp add: load_config_eq)
qed

lemma load_config_cong:
  assumes "env ''OPENROUTER_API_KEY'' = env' ''OPENROUTER_API_KEY''"
    and "env ''COUNCIL_MODELS'' = env' ''COUNCIL_MODELS''"
    and "env ''CHAIRMAN_MODEL'' = env' ''CHAIRMAN_MODEL''"
    and "reasoning_effort env = reasoning_effort env'"
  shows "load_config env = load_config env'"
proof -
  from assms(2) have "council_models env = council_models env'"
    by (simp add: council_models_def)
  moreover from assms(3) have "chairman_model env council = chairman_model env' council" for council
    by (simp add: chairman_model_def)
  ultimately show ?thesis using assms(1,4) by (simp add: load_config_def split: sum.splits)
qed

text \<open>
  C1: when COUNCIL_MODELS is unset, is the empty string, or parses to the empty list
  (", , ," does: see \<open>parse_only_commas_and_spaces\<close>), the module loads and the
  council is the built-in list of four identifiers, in its fixed order.
\<close>

theorem council_defaults_when_empty:
  assumes "env ''COUNCIL_MODELS'' = None \<or> env ''COUNCIL_MODELS'' = Some []
           \<or> parse_model_list (env ''COUNCIL_MODELS'') = Inr []"
  shows "\<exists>cfg. load_config env = Inr cfg
           \<and> COUNCIL_MODELS cfg = DEFAULT_COUNCIL_MODELS
           \<and> COUNCIL_MODELS cfg =
               [''anthropic/claude-haiku-4.5'', ''google/gemini-3-flash-preview'',
                ''openai/gpt-5-mini'', ''x-ai/grok-4.1-fast'']"
proof -
  from assms have "parse_model_list (env ''COUNCIL_MODELS'') = Inr []"
    by (auto simp: parse_model_list_def)
  then have "council_models env = Inr DEFAULT_COUNCIL_MODELS"
    by (simp add: council_models_def)
  then show ?thesis
    by (simp add: load_config_eq) (simp add: DEFAULT_COUNCIL_MODELS_def)
qed

theorem council_defaults_when_empty_witness:
  "parse_model_list ([''COUNCIL_MODELS'' \<mapsto> '', , ,''] ''COUNCIL_MODELS'') = Inr []
   \<and> (\<exists>cfg. load_config [''COUNCIL_MODELS'' \<mapsto> '', , ,''] = Inr cfg
           \<and> COUNCIL_MODELS cfg = DEFAULT_COUNCIL_MODELS
           \<and> COUNCIL_MODELS cfg =
               [''anthropic/claude-haiku-4.5'', ''google/gemini-3-flash-preview'',
                ''openai/gpt-5-mini'', ''x-ai/grok-4.1-fast''])"
proof -
  have h: "parse_model_list ([''COUNCIL_MODELS'' \<mapsto> '', , ,''] ''COUNCIL_MODELS'') = Inr []"
    by code_simp
  then show ?thesis
    using council_defaults_when_empty [of "[''COUNCIL_MODELS'' \<mapsto> '', , ,'']"] by blast
qed

text \<open>
  C2: when CHAIRMAN_MODEL is unset or the empty string, the chairman is element 0 of
  the resolved council list, whichever list that is; when it is set to a non-empty
  value, the chairman is that value as it stands, and the module loads whether or not
  the value is a council member.
\<close>

theorem chairman_resolution:
  "(env ''CHAIRMAN_MODEL'' = None \<or> env ''CHAIRMAN_MODEL'' = Some [] \<longrightarrow>
      (\<exists>cfg. load_config env = Inr cfg
          \<and> index0 (COUNCIL_MODELS cfg) = Inr (CHAIRMAN_MODEL cfg)))
   \<and> (\<forall>v. env ''CHAIRMAN_MODEL'' = Some v \<and> v \<noteq> [] \<longrightarrow>
          (\<exists>cfg. load_config env = Inr cfg \<and> CHAIRMAN_MODEL cfg = v))"
proof -
  obtain council where c: "council_models env = Inr council"
    using council_models_total by blast
  then have "index0 council = Inr (hd council)"
    by (simp add: council_models_nonempty index0_hd)
  with c show ?thesis by (auto simp: load_config_eq)
qed

theorem chairman_resolution_witness:
  "(\<exists>cfg. load_config [''COUNCIL_MODELS'' \<mapsto> ''modelA, modelB ,,modelC''] = Inr cfg
        \<and> index0 (COUNCIL_MODELS cfg) = Inr (CHAIRMAN_MODEL cfg)
        \<and> CHAIRMAN_MODEL cfg = ''modelA'')
   \<and> (\<exists>cfg. load_config [''CHAIRMAN_MODEL'' \<mapsto> ''not/a-member''] = Inr cfg
        \<and> CHAIRMAN_MODEL cfg = ''not/a-member''
        \<and> ''not/a-member'' \<notin> set (COUNCIL_MODELS cfg))"
proof -
  have "load_config [''COUNCIL_MODELS'' \<mapsto> ''modelA, modelB ,,modelC''] =
        Inr \<lparr> OPENROUTER_API_KEY = None,
              COUNCIL_MODELS = [''modelA'', ''modelB'', ''modelC''],
              CHAIRMAN_MODEL = ''modelA'',
              REASONING_EFFORT = Some ''medium'',
              OPENROUTER_API_URL = ''https://openrouter.ai/api/v1/chat/completions'',
              DATA_DIR = ''data/conversations'' \<rparr>"
    by code_simp
  moreover have "load_config [''CHAIRMAN_MODEL'' \<mapsto> ''not/a-member''] =
        Inr \<lparr> OPENROUTER_API_KEY = None,
              COUNCIL_MODELS = DEFAULT_COUNCIL_MODELS,
              CHAIRMAN_MODEL = ''not/a-member'',
              REASONING_EFFORT = Some ''medium'',
              OPENROUTER_API_URL = ''https://openrouter.ai/api/v1/chat/completions'',
              DATA_DIR = ''data/conversations'' \<rparr>"
    by code_simp
  moreover have "''not/a-member'' \<notin> set DEFAULT_COUNCIL_MODELS"
    by code_simp
  ultimately show ?thesis
    using chairman_resolution [of "[''COUNCIL_MODELS'' \<mapsto> ''modelA, modelB ,,modelC'']"]
      chairman_resolution [of "[''CHAIRMAN_MODEL'' \<mapsto> ''not/a-member'']"]
    by simp
qed

text \<open>
  C6: for every environment the resolved council list is not empty: it is the parsed
  list, which is then not empty, or the built-in list of four identifiers.
\<close>

theorem council_never_empty:
  "\<exists>cfg. load_config env = Inr cfg
      \<and> COUNCIL_MODELS cfg \<noteq> []
      \<and> (parse_model_list (env ''COUNCIL_MODELS'') = Inr (COUNCIL_MODELS cfg)
          \<or> COUNCIL_MODELS cfg = DEFAULT_COUNCIL_MODELS)
      \<and> length DEFAULT_COUNCIL_MODELS = 4"
proof -
  obtain council where c: "council_models env = Inr council"
    using council_models_total by blast
  then have "council \<noteq> []" by (rule council_models_nonempty)
  moreover from c have "parse_model_list (env ''COUNCIL_MODELS'') = Inr council
      \<or> council = DEFAULT_COUNCIL_MODELS"
    by (auto simp: council_models_eq parse_model_list_eq_spec split: if_splits)
  moreover have "length DEFAULT_COUNCIL_MODELS = 4"
    by (simp add: DEFAULT_COUNCIL_MODELS_def)
  ultimately show ?thesis using c by (simp add: load_config_eq)
qed

text \<open>
  C7: for every environment the module loads without raising; in particular the
  index-0 access on the resolved council list succeeds.
\<close>

theorem load_config_never_raises:
  "\<exists>cfg. load_config env = Inr cfg
      \<and> (\<exists>first. index0 (COUNCIL_MODELS cfg) = Inr first)"
proof -
  obtain council where c: "council_models env = Inr council"
    using council_models_total by blast
  then have "index0 council = Inr (hd council)"
    by (simp add: council_models_nonempty index0_hd)
  with c show ?thesis by (simp add: load_config_eq)
qed

text \<open>
  C10: the chairman is never trimmed. A CHAIRMAN_MODEL value that is set and not empty
  is kept as it stands: when it is only whitespace or carries surrounding whitespace
  it differs from its trimmed form and is no member of the council list, so the
  default was not taken. Only the empty string gives element 0 of the council list.
\<close>

theorem chairman_kept_verbatim:
  assumes "env ''CHAIRMAN_MODEL'' = Some v"
  shows "\<exists>cfg. load_config env = Inr cfg
           \<and> (if v = [] then index0 (COUNCIL_MODELS cfg) = Inr (CHAIRMAN_MODEL cfg)
               else CHAIRMAN_MODEL cfg = v
                    \<and> (strip v \<noteq> v \<longrightarrow>
                          CHAIRMAN_MODEL cfg \<noteq> strip v
                          \<and> CHAIRMAN_MODEL cfg \<notin> set (COUNCIL_MODELS cfg)))"
proof -
  obtain council where c: "council_models env = Inr council"
    using council_models_total by blast
  then have i: "index0 council = Inr (hd council)"
    by (simp add: council_models_nonempty index0_hd)
  have "v \<notin> set council" if "strip v \<noteq> v"
    using that council_models_entries [OF c, of v] by blast
  with c i assms show ?thesis by (auto simp: load_config_eq)
qed

theorem chairman_kept_verbatim_witness:
  "[''CHAIRMAN_MODEL'' \<mapsto> ''   ''] ''CHAIRMAN_MODEL'' = Some ''   ''
   \<and> strip ''   '' \<noteq> ''   ''
   \<and> (\<exists>cfg. load_config [''CHAIRMAN_MODEL'' \<mapsto> ''   ''] = Inr cfg
          \<and> CHAIRMAN_MODEL cfg = ''   ''
          \<and> CHAIRMAN_MODEL cfg \<notin> set (COUNCIL_MODELS cfg))
   \<and> strip ''  m  '' \<noteq> ''  m  ''
   \<and> (\<exists>cfg. load_config [''CHAIRMAN_MODEL'' \<mapsto> ''  m  '', ''COUNCIL_MODELS'' \<mapsto> ''m,n''] = Inr cfg
          \<and> CHAIRMAN_MODEL cfg = ''  m  ''
          \<and> CHAIRMAN_MODEL cfg \<noteq> ''m''
          \<and> CHAIRMAN_MODEL cfg \<notin> set (COUNCIL_MODELS cfg))
   \<and> (\<exists>cfg. load_config [''CHAIRMAN_MODEL'' \<mapsto> '''', ''COUNCIL_MODELS'' \<mapsto> ''m,n''] = Inr cfg
          \<and> index0 (COUNCIL_MODELS cfg) = Inr (CHAIRMAN_MODEL cfg))"
proof -
  have s1: "strip ''   '' = ''''" by code_simp
  have s2: "strip ''  m  '' = ''m''" by code_simp
  have w1: "\<exists>cfg. load_config [''CHAIRMAN_MODEL'' \<mapsto> ''   ''] = Inr cfg
          \<and> CHAIRMAN_MODEL cfg = ''   ''
          \<and> CHAIRMAN_MODEL cfg \<notin> set (COUNCIL_MODELS cfg)"
    using chairman_kept_verbatim [of "[''CHAIRMAN_MODEL'' \<mapsto> ''   '']" "''   ''"]
    by (auto simp: s1)
  have w2: "\<exists>cfg. load_config [''CHAIRMAN_MODEL'' \<mapsto> ''  m  '', ''COUNCIL_MODELS'' \<mapsto> ''m,n''] = Inr cfg
          \<and> CHAIRMAN_MODEL cfg = ''  m  ''
          \<and> CHAIRMAN_MODEL cfg \<noteq> ''m''
          \<and> CHAIRMAN_MODEL cfg \<notin> set (COUNCIL_MODELS cfg)"
    using chairman_kept_verbatim [of "[''CHAIRMAN_MODEL'' \<mapsto> ''  m  '', ''COUNCIL_MODELS'' \<mapsto> ''m,n'']" "''  m  ''"]
    by (auto simp: s2)
  have w3: "\<exists>cfg. load_config [''CHAIRMAN_MODEL'' \<mapsto> '''', ''COUNCIL_MODELS'' \<mapsto> ''m,n''] = Inr cfg
          \<and> index0 (COUNCIL_MODELS cfg) = Inr (CHAIRMAN_MODEL cfg)"
    using chairman_kept_verbatim [of "[''CHAIRMAN_MODEL'' \<mapsto> '''', ''COUNCIL_MODELS'' \<mapsto> ''m,n'']" "''''"]
    by simp
  have "strip ''   '' \<noteq> ''   ''" and "strip ''  m  '' \<noteq> ''  m  ''"
    by (simp_all add: s1 s2)
  with w1 w2 w3 show ?thesis by simp
qed

text \<open>
  C4, as stated, fails when REASONING_EFFORT is set to the empty string: the
  \<^verbatim>\<open>or "medium"\<close> takes the default for it, so the resolved value is "medium" and
  not the trimmed and lowercased input.
\<close>

theorem reasoning_effort_set_empty_counterexample:
  "load_config [''REASONING_EFFORT'' \<mapsto> ''''] =
     Inr \<lparr> OPENROUTER_API_KEY = None,
           COUNCIL_MODELS = [''anthropic/claude-haiku-4.5'', ''google/gemini-3-flash-preview'',
                             ''openai/gpt-5-mini'', ''x-ai/grok-4.1-fast''],
           CHAIRMAN_MODEL = ''anthropic/claude-haiku-4.5'',
           REASONING_EFFORT = Some ''medium'',
           OPENROUTER_API_URL = ''https://openrouter.ai/api/v1/chat/completions'',
           DATA_DIR = ''data/conversations'' \<rparr>
   \<and> lower (strip '''') = ''''
   \<and> Some ''medium'' \<noteq> Some (lower (strip ''''))"
proof -
  have "load_config [''REASONING_EFFORT'' \<mapsto> ''''] =
     Inr \<lparr> OPENROUTER_API_KEY = None,
           COUNCIL_MODELS = [''anthropic/claude-haiku-4.5'', ''google/gemini-3-flash-preview'',
                             ''openai/gpt-5-mini'', ''x-ai/grok-4.1-fast''],
           CHAIRMAN_MODEL = ''anthropic/claude-haiku-4.5'',
           REASONING_EFFORT = Some ''medium'',
           OPENROUTER_API_URL = ''https://openrouter.ai/api/v1/chat/completions'',
           DATA_DIR = ''data/conversations'' \<rparr>"
    by code_simp
  moreover have "lower (strip '''') = ''''" by code_simp
  ultimately show ?thesis by simp
qed

text \<open>
  C4, amended: when REASONING_EFFORT is unset or the empty string, the resolved
  reasoning effort is "medium"; when it is set to a non-empty value, the resolved value
  is that value trimmed of surrounding whitespace and then lowercased ("  HIGH  " gives
  "high"), or absent when nothing is left after trimming.
\<close>

theorem reasoning_effort_resolution:
  "(env ''REASONING_EFFORT'' = None \<or> env ''REASONING_EFFORT'' = Some [] \<longrightarrow>
      (\<exists>cfg. load_config env = Inr cfg \<and> REASONING_EFFORT cfg = Some ''medium''))
   \<and> (\<forall>v. env ''REASONING_EFFORT'' = Some v \<and> v \<noteq> [] \<longrightarrow>
          (\<exists>cfg. load_config env = Inr cfg
             \<and> REASONING_EFFORT cfg =
                 (if lower (strip v) = [] then None else Some (lower (strip v)))))"
proof -
  obtain cfg where cfg: "load_config env = Inr cfg" "REASONING_EFFORT cfg = reasoning_effort env"
    using load_config_reasoning_effort by blast
  have "REASONING_EFFORT cfg = Some ''medium''"
    if "env ''REASONING_EFFORT'' = None \<or> env ''REASONING_EFFORT'' = Some []"
    using that cfg by (simp add: reasoning_effort_unset)
  moreover have "REASONING_EFFORT cfg = (if lower (strip v) = [] then None else Some (lower (strip v)))"
    if "env ''REASONING_EFFORT'' = Some v" "v \<noteq> []" for v
    using that cfg by (simp add: reasoning_effort_set)
  ultimately show ?thesis using cfg(1) by auto
qed

theorem reasoning_effort_resolution_witness:
  "(\<exists>cfg. load_config Map.empty = Inr cfg \<and> REASONING_EFFORT cfg = Some ''medium'')
   \<and> (\<exists>cfg. load_config [''REASONING_EFFORT'' \<mapsto> ''''] = Inr cfg
          \<and> REASONING_EFFORT cfg = Some ''medium'')
   \<and> (\<exists>cfg. load_config [''REASONING_EFFORT'' \<mapsto> ''  HIGH  ''] = Inr cfg
          \<and> REASONING_EFFORT cfg = Some ''high'')"
proof -
  have h: "lower (strip ''  HIGH  '') = ''high''" by code_simp
  have w1: "\<exists>cfg. load_config Map.empty = Inr cfg \<and> REASONING_EFFORT cfg = Some ''medium''"
    using reasoning_effort_resolution [of Map.empty] by simp
  have w2: "\<exists>cfg. load_config [''REASONING_EFFORT'' \<mapsto> ''''] = Inr cfg
          \<and> REASONING_EFFORT cfg = Some ''medium''"
    using reasoning_effort_resolution [of "[''REASONING_EFFORT'' \<mapsto> '''']"] by simp
  have w3: "\<exists>cfg. load_config [''REASONING_EFFORT'' \<mapsto> ''  HIGH  ''] = Inr cfg
          \<and> REASONING_EFFORT cfg = Some ''high''"
    using reasoning_effort_resolution [of "[''REASONING_EFFORT'' \<mapsto> ''  HIGH  '']"]
    by (simp add: h)
  from w1 w2 w3 show ?thesis by simp
qed

text \<open>
  C5, as stated, fails: set to "   ", REASONING_EFFORT resolves to absent, but the
  module then differs from the one loaded with the variable unset, where the value is
  "medium".
\<close>

theorem reasoning_effort_blank_counterexample:
  "lower (strip ''   '') = ''''
   \<and> load_config [''REASONING_EFFORT'' \<mapsto> ''   ''] =
     Inr \<lparr> OPENROUTER_API_KEY = None,
           COUNCIL_MODELS = [''anthropic/claude-haiku-4.5'', ''google/gemini-3-flash-preview'',
                             ''openai/gpt-5-mini'', ''x-ai/grok-4.1-fast''],
           CHAIRMAN_MODEL = ''anthropic/claude-haiku-4.5'',
           REASONING_EFFORT = None,
           OPENROUTER_API_URL = ''https://openrouter.ai/api/v1/chat/completions'',
           DATA_DIR = ''data/conversations'' \<rparr>
   \<and> load_config Map.empty =
     Inr \<lparr> OPENROUTER_API_KEY = None,
           COUNCIL_MODELS = [''anthropic/claude-haiku-4.5'', ''google/gemini-3-flash-preview'',
                             ''openai/gpt-5-mini'', ''x-ai/grok-4.1-fast''],
           CHAIRMAN_MODEL = ''anthropic/claude-haiku-4.5'',
           REASONING_EFFORT = Some ''medium'',
           OPENROUTER_API_URL = ''https://openrouter.ai/api/v1/chat/completions'',
           DATA_DIR = ''data/conversations'' \<rparr>
   \<and> load_config [''REASONING_EFFORT'' \<mapsto> ''   ''] \<noteq> load_config Map.empty"
proof -
  have a: "lower (strip ''   '') = ''''" by code_simp
  have b: "load_config [''REASONING_EFFORT'' \<mapsto> ''   ''] =
     Inr \<lparr> OPENROUTER_API_KEY = None,
           COUNCIL_MODELS = [''anthropic/claude-haiku-4.5'', ''google/gemini-3-flash-preview'',
                             ''openai/gpt-5-mini'', ''x-ai/grok-4.1-fast''],
           CHAIRMAN_MODEL = ''anthropic/claude-haiku-4.5'',
           REASONING_EFFORT = None,
           OPENROUTER_API_URL = ''https://openrouter.ai/api/v1/chat/completions'',
           DATA_DIR = ''data/conversations'' \<rparr>"
    by code_simp
  have c: "load_config Map.empty =
     Inr \<lparr> OPENROUTER_API_KEY = None,
           COUNCIL_MODELS = [''anthropic/claude-haiku-4.5'', ''google/gemini-3-flash-preview'',
                             ''openai/gpt-5-mini'', ''x-ai/grok-4.1-fast''],
           CHAIRMAN_MODEL = ''anthropic/claude-haiku-4.5'',
           REASONING_EFFORT = Some ''medium'',
           OPENROUTER_API_URL = ''https://openrouter.ai/api/v1/chat/completions'',
           DATA_DIR = ''data/conversations'' \<rparr>"
    by code_simp
  show ?thesis by (simp add: a b c)
qed

text \<open>
  C5, amended: when REASONING_EFFORT is set to a non-empty value of which nothing is
  left after trimming and lowercasing, the resolved reasoning effort is absent; when
  it is set to the empty string, the module loads exactly as with the variable unset;
  and with the variable unset the resolved reasoning effort is "medium", not absent.
\<close>

theorem reasoning_effort_blank:
  "(\<forall>v. env ''REASONING_EFFORT'' = Some v \<and> v \<noteq> [] \<and> lower (strip v) = [] \<longrightarrow>
        (\<exists>cfg. load_config env = Inr cfg \<and> REASONING_EFFORT cfg = None))
   \<and> (env ''REASONING_EFFORT'' = Some [] \<longrightarrow>
        load_config env = load_config (env(''REASONING_EFFORT'' := None)))
   \<and> (\<exists>cfg. load_config (env(''REASONING_EFFORT'' := None)) = Inr cfg
          \<and> REASONING_EFFORT cfg = Some ''medium'')"
proof -
  have same: "load_config env = load_config (env(''REASONING_EFFORT'' := None))"
    if "env ''REASONING_EFFORT'' = Some []"
  proof (rule load_config_cong)
    from that show "reasoning_effort env = reasoning_effort (env(''REASONING_EFFORT'' := None))"
      by (simp add: reasoning_effort_unset)
  qed simp_all
  have unset: "\<exists>cfg. load_config (env(''REASONING_EFFORT'' := None)) = Inr cfg
          \<and> REASONING_EFFORT cfg = Some ''medium''"
    using load_config_reasoning_effort [of "env(''REASONING_EFFORT'' := None)"]
    by (simp add: reasoning_effort_unset)
  obtain cfg where cfg: "load_config env = Inr cfg" "REASONING_EFFORT cfg = reasoning_effort env"
    using load_config_reasoning_effort by blast
  have blank: "REASONING_EFFORT cfg = None"
    if "env ''REASONING_EFFORT'' = Some v" "v \<noteq> []" "lower (strip v) = []" for v
    using that cfg by (simp add: reasoning_effort_set)
  from same unset blank cfg(1) show ?thesis by auto
qed

theorem reasoning_effort_blank_witness:
  "(\<exists>cfg. load_config [''REASONING_EFFORT'' \<mapsto> ''   ''] = Inr cfg
        \<and> REASONING_EFFORT cfg = None)
   \<and> load_config [''REASONING_EFFORT'' \<mapsto> ''''] = load_config Map.empty
   \<and> (\<exists>cfg. load_config Map.empty = Inr cfg \<and> REASONING_EFFORT cfg = Some ''medium'')"
proof -
  have h: "lower (strip ''   '') = ''''" by code_simp
  have w1: "\<exists>cfg. load_config [''REASONING_EFFORT'' \<mapsto> ''   ''] = Inr cfg
        \<and> REASONING_EFFORT cfg = None"
    using reasoning_effort_blank [of "[''REASONING_EFFORT'' \<mapsto> ''   '']"] by (simp add: h)
  have w2: "load_config [''REASONING_EFFORT'' \<mapsto> ''''] = load_config Map.empty
     \<and> (\<exists>cfg. load_config Map.empty = Inr cfg \<and> REASONING_EFFORT cfg = Some ''medium'')"
    using reasoning_effort_blank [of "[''REASONING_EFFORT'' \<mapsto> '''']"] by simp
  from w1 w2 show ?thesis by simp
qed

end
